theory Spec2Isabelle
  imports Main "HOL-Library.Multiset"
begin

section \<open>Values and tokens\<close>

text \<open>
  The solver computes with JavaScript numbers. The values that reach the evaluator's stack
  are integers and, through \<open>factorial\<close>, \<open>Infinity\<close>. Integers are modelled exactly
  (\<open>int\<close>); a double agrees with that below \<open>2^53\<close>.
\<close>

datatype jsnum = Fin int | PosInf

text \<open>
  An RPN token is a number or one of the eight operator strings of \<open>opsByLevel\<close>:
  \<open>+ - * / ^ sqrt root !\<close>.
\<close>

datatype op = OpAdd | OpSub | OpMul | OpDiv | OpPow | OpSqrt | OpRoot | OpFact

datatype token = Num int | Op op

section \<open>factorial\<close>

text \<open>
  \<^verbatim>\<open>if (n < 0 || n > 10) return Infinity; if (n === 0 || n === 1) return 1;
  let result = 1; for (let i = 2; i <= n; i++) result *= i; return result;\<close>
\<close>

definition factorial :: "int \<Rightarrow> jsnum" where
  "factorial n =
     (if n < 0 \<or> n > 10 then PosInf
      else if n = 0 \<or> n = 1 then Fin 1
      else Fin (fold (\<lambda>i result. result * i) [2..n] 1))"

section \<open>Square roots and roots\<close>

text \<open>
  \<open>root_search b a r\<close> counts \<open>r\<close> upwards to the least \<open>r\<close> with \<open>a \<le> r ^ b\<close>.
\<close>

function root_search :: "nat \<Rightarrow> nat \<Rightarrow> nat \<Rightarrow> nat" where
  "root_search b a r = (if r ^ b < a \<and> r < a then root_search b a (Suc r) else r)"
  by pat_completeness auto
termination
  by (relation "measure (\<lambda>(b, a, r). a - r)") auto

declare root_search.simps [simp del]

text \<open>
  \<open>Math.sqrt(a)\<close> followed by \<open>Number.isInteger\<close>: the square root when \<open>a\<close> is a perfect
  square, nothing otherwise (a negative \<open>a\<close> gives \<open>NaN\<close>, which is no integer).
\<close>

definition math_sqrt :: "int \<Rightarrow> int option" where
  "math_sqrt a =
     (if a < 0 then None
      else let r = int (root_search 2 (nat a) 0) in if r * r = a then Some r else None)"

text \<open>
  \<open>res = Math.pow(a, 1/b); if (Math.abs(res - Math.round(res)) > 0.00001) return null;
  res = Math.round(res)\<close>, read in exact arithmetic for \<open>a \<ge> 0\<close> and \<open>b \<ge> 2\<close>: the integer
  \<open>r\<close> is within \<open>1/100000\<close> of the \<open>b\<close>-th root of \<open>a\<close> iff
  \<open>(r - 1/100000)^b \<le> a \<le> (r + 1/100000)^b\<close>, and then it is the rounded root.
\<close>

definition near_root :: "nat \<Rightarrow> int \<Rightarrow> int \<Rightarrow> bool" where
  "near_root b a r =
     ((r = 0 \<or> (100000 * r - 1) ^ b \<le> a * 100000 ^ b) \<and> a * 100000 ^ b \<le> (100000 * r + 1) ^ b)"

definition nth_root :: "int \<Rightarrow> int \<Rightarrow> int option" where
  "nth_root a b =
     (let k = int (root_search (nat b) (nat a) 0) in
      if near_root (nat b) a k then Some k
      else if 1 \<le> k \<and> near_root (nat b) a (k - 1) then Some (k - 1)
      else None)"

section \<open>evaluateRPN\<close>

text \<open>
  The unary branch of the loop, for the popped operand \<open>a\<close>; \<open>None\<close> is \<open>return null\<close>.
  \<open>!\<close> pushes \<open>factorial(a)\<close> as it is. \<open>Infinity\<close> fails \<open>Number.isInteger\<close>.
\<close>

fun unary_op :: "op \<Rightarrow> jsnum \<Rightarrow> jsnum option" where
  "unary_op OpFact (Fin a) = (if a < 0 then None else Some (factorial a))"
| "unary_op OpFact PosInf = None"
| "unary_op OpSqrt (Fin a) = (if a < 0 then None else map_option Fin (math_sqrt a))"
| "unary_op OpSqrt PosInf = None"
| "unary_op _ _ = None"

text \<open>
  The binary branch, for \<open>b = stack.pop()\<close>, \<open>a = stack.pop()\<close>, with the final
  \<open>if (!Number.isInteger(res)) return null\<close>. With an infinite operand the JavaScript
  results are: \<open>0 / Infinity = 0\<close>; \<open>Math.pow(0, Infinity) = 0\<close>,
  \<open>Math.pow(Infinity, 0) = 1\<close>, \<open>Math.pow(Infinity, b) = 0\<close> for \<open>b < 0\<close>;
  \<open>Math.pow(a, 1/Infinity) = 1\<close>; every other combination is \<open>Infinity\<close> or \<open>NaN\<close>.
\<close>

fun binary_op :: "op \<Rightarrow> jsnum \<Rightarrow> jsnum \<Rightarrow> jsnum option" where
  "binary_op OpAdd (Fin a) (Fin b) = Some (Fin (a + b))"
| "binary_op OpAdd _ _ = None"
| "binary_op OpSub (Fin a) (Fin b) = (if a < b then None else Some (Fin (a - b)))"
| "binary_op OpSub _ _ = None"
| "binary_op OpMul (Fin a) (Fin b) = Some (Fin (a * b))"
| "binary_op OpMul _ _ = None"
| "binary_op OpDiv (Fin a) (Fin b) =
     (if b = 0 \<or> a mod b \<noteq> 0 then None else Some (Fin (a div b)))"
| "binary_op OpDiv (Fin a) PosInf = (if a \<noteq> 0 then None else Some (Fin 0))"
| "binary_op OpDiv PosInf _ = None"
| "binary_op OpPow (Fin a) (Fin b) =
     (if 0 \<le> b then (if a ^ nat b > 10000 then None else Some (Fin (a ^ nat b)))
      else if a = 1 then Some (Fin 1)
      else if a = - 1 then Some (Fin (if even b then 1 else - 1))
      else None)"
| "binary_op OpPow (Fin a) PosInf = (if a = 0 then Some (Fin 0) else None)"
| "binary_op OpPow PosInf (Fin b) =
     (if b = 0 then Some (Fin 1) else if b < 0 then Some (Fin 0) else None)"
| "binary_op OpPow PosInf PosInf = None"
| "binary_op OpRoot (Fin a) (Fin b) =
     (if b < 2 \<or> a < 0 then None else map_option Fin (nth_root a b))"
| "binary_op OpRoot (Fin a) PosInf = (if a < 0 then None else Some (Fin 1))"
| "binary_op OpRoot PosInf (Fin b) = None"
| "binary_op OpRoot PosInf PosInf = Some (Fin 1)"
| "binary_op _ _ _ = None"

text \<open>One iteration of \<open>for (const token of rpn)\<close>; the head of the list is the top.\<close>

fun eval_step :: "token \<Rightarrow> jsnum list \<Rightarrow> jsnum list option" where
  "eval_step (Num n) stack = Some (Fin n # stack)"
| "eval_step (Op t) stack =
     (if t = OpFact \<or> t = OpSqrt then
        (case stack of
           [] \<Rightarrow> None
         | a # rest \<Rightarrow> map_option (\<lambda>res. res # rest) (unary_op t a))
      else
        (case stack of
           b # a # rest \<Rightarrow> map_option (\<lambda>res. res # rest) (binary_op t a b)
         | _ \<Rightarrow> None))"

fun eval_loop :: "token list \<Rightarrow> jsnum list \<Rightarrow> jsnum list option" where
  "eval_loop [] stack = Some stack"
| "eval_loop (token # rest) stack =
     (case eval_step token stack of None \<Rightarrow> None | Some stack' \<Rightarrow> eval_loop rest stack')"

definition evaluateRPN :: "token list \<Rightarrow> jsnum option" where
  "evaluateRPN rpn = (case eval_loop rpn [] of Some [v] \<Rightarrow> Some v | _ \<Rightarrow> None)"

section \<open>rpnToInfix\<close>

text \<open>\<open>token.toString()\<close> for an integer.\<close>

definition digit_char :: "nat \<Rightarrow> char" where
  "digit_char d = ''0123456789'' ! d"

function string_of_nat :: "nat \<Rightarrow> string" where
  "string_of_nat n =
     (if n < 10 then [digit_char n] else string_of_nat (n div 10) @ [digit_char (n mod 10)])"
  by pat_completeness auto
termination
  by (relation "measure id") auto

declare string_of_nat.simps [simp del]

definition number_toString :: "int \<Rightarrow> string" where
  "number_toString n = (if n < 0 then CHR ''-'' # string_of_nat (nat (- n)) else string_of_nat (nat n))"

fun precedence :: "op \<Rightarrow> nat" where
  "precedence OpAdd = 1"
| "precedence OpSub = 1"
| "precedence OpMul = 2"
| "precedence OpDiv = 2"
| "precedence OpPow = 3"
| "precedence OpRoot = 3"
| "precedence _ = 0"

fun op_text :: "op \<Rightarrow> string" where
  "op_text OpAdd = ''+''"
| "op_text OpSub = ''-''"
| "op_text OpMul = ''*''"
| "op_text OpDiv = ''/''"
| "op_text OpPow = ''^''"
| "op_text OpSqrt = ''sqrt''"
| "op_text OpRoot = ''root''"
| "op_text OpFact = ''!''"

text \<open>
  A stack entry is the object \<open>{val, prec}\<close>. Popping an empty stack gives \<open>undefined\<close>,
  and reading \<open>.val\<close> or \<open>.prec\<close> of it throws a TypeError: \<open>None\<close>.
\<close>

record entry =
  val :: string
  prec :: nat

fun infix_step :: "token \<Rightarrow> entry list \<Rightarrow> entry list option" where
  "infix_step (Num n) stack = Some (\<lparr>val = number_toString n, prec = 4\<rparr> # stack)"
| "infix_step (Op t) stack =
     (if t = OpFact \<or> t = OpSqrt then
        (case stack of
           [] \<Rightarrow> None
         | a # rest \<Rightarrow>
             Some (\<lparr>val = (if t = OpFact then val a @ ''!'' else ''sqrt('' @ val a @ '')''),
                    prec = 4\<rparr> # rest))
      else
        (case stack of
           b # a # rest \<Rightarrow>
             (let opPrec = precedence t;
                  valA = (if prec a < opPrec then ''('' @ val a @ '')'' else val a);
                  valB = (if prec b \<le> opPrec then ''('' @ val b @ '')'' else val b);
                  str = (if t = OpRoot then valB @ '' root '' @ valA
                         else valA @ op_text t @ valB)
              in Some (\<lparr>val = str, prec = opPrec\<rparr> # rest))
         | _ \<Rightarrow> None))"

fun infix_loop :: "token list \<Rightarrow> entry list \<Rightarrow> entry list option" where
  "infix_loop [] stack = Some stack"
| "infix_loop (token # rest) stack =
     (case infix_step token stack of None \<Rightarrow> None | Some stack' \<Rightarrow> infix_loop rest stack')"

text \<open>\<open>return stack[0].val\<close>: the bottom of the stack, the last element of the list.\<close>

definition rpnToInfix :: "token list \<Rightarrow> string option" where
  "rpnToInfix rpn =
     (case infix_loop rpn [] of
        None \<Rightarrow> None
      | Some [] \<Rightarrow> None
      | Some (e # es) \<Rightarrow> Some (val (last (e # es))))"

text \<open>
  Predicates for stating that no negative number occurs: on a stack value, and on the
  number tokens of a sequence.
\<close>

fun non_negative :: "jsnum \<Rightarrow> bool" where
  "non_negative (Fin n) = (0 \<le> n)"
| "non_negative PosInf = True"

fun number_tokens_non_negative :: "token list \<Rightarrow> bool" where
  "number_tokens_non_negative [] = True"
| "number_tokens_non_negative (Num n # rest) = (0 \<le> n \<and> number_tokens_non_negative rest)"
| "number_tokens_non_negative (Op t # rest) = number_tokens_non_negative rest"

section \<open>The permutation generator\<close>

text \<open>
  \<open>getPermutations\<close> inserts the first element at every position \<open>i = 0 .. perm.length\<close>
  of every permutation of the rest: \<open>[...perm.slice(0, i), firstEl, ...perm.slice(i)]\<close>.
\<close>

fun getPermutations :: "'a list \<Rightarrow> 'a list list" where
  "getPermutations [] = [[]]"
| "getPermutations (firstEl # rest) =
     concat (map (\<lambda>perm. map (\<lambda>i. take i perm @ firstEl # drop i perm) [0..<Suc (length perm)])
                 (getPermutations rest))"

text \<open>
  \<open>[...new Set(xs)]\<close>: the elements in the order of their first occurrence.
\<close>

definition dedup :: "'a list \<Rightarrow> 'a list" where
  "dedup xs = fold (\<lambda>x seen. if x \<in> set seen then seen else seen @ [x]) xs []"

text \<open>
  \<open>p.join(',')\<close>, \<open>s.split(',')\<close> and \<open>Number(s)\<close> on what \<open>join\<close> produces from integers:
  decimal numerals with an optional minus sign, and the empty string, which \<open>Number\<close>
  turns into \<open>0\<close>. \<open>''.split(',')\<close> is \<open>['']\<close>.
\<close>

fun join_comma :: "string list \<Rightarrow> string" where
  "join_comma [] = []"
| "join_comma [s] = s"
| "join_comma (s # t # rest) = s @ CHR '','' # join_comma (t # rest)"

fun split_comma :: "string \<Rightarrow> string list" where
  "split_comma [] = [[]]"
| "split_comma (c # cs) =
     (if c = CHR '','' then [] # split_comma cs
      else (case split_comma cs of [] \<Rightarrow> [[c]] | w # ws \<Rightarrow> (c # w) # ws))"

definition digits_value :: "string \<Rightarrow> nat" where
  "digits_value s = foldl (\<lambda>acc c. 10 * acc + (of_char c - 48)) 0 s"

definition js_Number :: "string \<Rightarrow> int" where
  "js_Number s =
     (case s of
        [] \<Rightarrow> 0
      | c # cs \<Rightarrow> if c = CHR ''-'' then - int (digits_value cs) else int (digits_value s))"

text \<open>
  \<open>const numPermutations = [...new Set(getPermutations(numbers).map(p => p.join(',')))]
  .map(s => s.split(',').map(Number))\<close>
\<close>

definition numPermutations :: "int list \<Rightarrow> int list list" where
  "numPermutations numbers =
     map (\<lambda>s. map js_Number (split_comma s))
         (dedup (map (\<lambda>p. join_comma (map number_toString p)) (getPermutations numbers)))"

section \<open>findSolutions\<close>

subsection \<open>Levels\<close>

text \<open>
  \<open>level\<close> is a JavaScript value: one of the strings \<open>"B"\<close>, \<open>"1"\<close>, \<open>"2"\<close>, \<open>"3"\<close> of the
  interface, or a number (the summation block itself passes \<open>Math.min(level, 2)\<close>).
  The code reads it in three ways: as a property key in \<open>opsByLevel[level]\<close>, coerced to
  a number in \<open>level >= 2\<close> (\<open>"B"\<close> is \<open>NaN\<close> there, and the comparison is false), and
  without coercion in \<open>level === 3\<close>, which only the number \<open>3\<close> satisfies.
\<close>

datatype level = LvB | Lv1 | Lv2 | Lv3 | LvNum int

definition opsByLevel :: "string \<Rightarrow> op list option" where
  "opsByLevel key =
     (if key = ''B'' then Some [OpAdd, OpSub, OpMul, OpDiv]
      else if key = ''1'' then Some [OpAdd, OpSub, OpMul, OpDiv, OpPow]
      else if key = ''2'' then Some [OpAdd, OpSub, OpMul, OpDiv, OpPow, OpSqrt, OpRoot]
      else if key = ''3'' then Some [OpAdd, OpSub, OpMul, OpDiv, OpPow, OpSqrt, OpRoot, OpFact]
      else None)"

fun level_key :: "level \<Rightarrow> string" where
  "level_key LvB = ''B''"
| "level_key Lv1 = ''1''"
| "level_key Lv2 = ''2''"
| "level_key Lv3 = ''3''"
| "level_key (LvNum n) = number_toString n"

text \<open>\<open>const operators = opsByLevel[level] || opsByLevel['B']\<close>\<close>

definition operators_of :: "level \<Rightarrow> op list" where
  "operators_of level =
     (case opsByLevel (level_key level) of
        Some ops \<Rightarrow> ops
      | None \<Rightarrow> [OpAdd, OpSub, OpMul, OpDiv])"

fun level_ge_2 :: "level \<Rightarrow> bool" where
  "level_ge_2 LvB = False"
| "level_ge_2 Lv1 = False"
| "level_ge_2 Lv2 = True"
| "level_ge_2 Lv3 = True"
| "level_ge_2 (LvNum n) = (2 \<le> n)"

definition level_is_3 :: "level \<Rightarrow> bool" where
  "level_is_3 level = (level = LvNum 3)"

subsection \<open>Exceptions and loops\<close>

text \<open>
  A call of \<open>findSolutions\<close> ends with a result or with an exception. \<open>TypeError\<close> is
  thrown by \<open>rpnToInfix\<close> on a missing sequence or an empty stack. \<open>DepthExceeded\<close>
  stands for a chain of nested calls longer than the depth the model is run with: a call
  that is \<open>DepthExceeded\<close> at every depth never returns (JavaScript ends it with a
  RangeError when the call stack is full).
\<close>

datatype error = TypeError | DepthExceeded

definition andThen :: "error + 'a \<Rightarrow> ('a \<Rightarrow> error + 'b) \<Rightarrow> error + 'b" where
  "andThen m f = (case m of Inl e \<Rightarrow> Inl e | Inr x \<Rightarrow> f x)"

text \<open>A \<open>for\<close> loop over a list whose body may throw.\<close>

fun foldE :: "('a \<Rightarrow> 's \<Rightarrow> error + 's) \<Rightarrow> 'a list \<Rightarrow> 's \<Rightarrow> error + 's" where
  "foldE f [] s = Inr s"
| "foldE f (x # xs) s = (case f x s of Inl e \<Rightarrow> Inl e | Inr s' \<Rightarrow> foldE f xs s')"

subsection \<open>Solution records and the tracker\<close>

text \<open>
  A record built by \<open>updateSolutions\<close> has an expression and an RPN sequence; the record
  that the summation block stores has neither (\<open>undefined\<close>, here \<open>None\<close>).
\<close>

record sigma =
  sigma_start :: int
  sigma_end :: int
  sigma_body :: string

record solution =
  sol_value :: int
  sol_expression :: "string option"
  sol_rpn :: "token list option"
  sol_type :: string
  sol_sigma :: "sigma option"
  sol_score :: int

text \<open>
  \<open>closest\<close> starts as \<open>{value: -Infinity, expression: '', distance: Infinity}\<close> and is
  replaced only under \<open>distance < closest.distance\<close>, by a record with a finite distance.
  The initial object is \<open>None\<close>; the result has \<open>closest.distance !== Infinity ? closest : null\<close>.
\<close>

record closest_record =
  cl_value :: int
  cl_expression :: string
  cl_distance :: int
  cl_rpn :: "token list"
  cl_type :: string
  cl_sigma :: "sigma option"
  cl_score :: int

text \<open>
  \<open>solutions\<close> is a \<open>Map\<close>; its entries are kept in insertion order, and \<open>set\<close> on a
  present key replaces the value in place.
\<close>

record tracker =
  solutions :: "(int \<times> solution) list"
  closest :: "closest_record option"

record result =
  exactSolutions :: "solution list"
  result_closest :: "closest_record option"

definition map_has :: "'k \<Rightarrow> ('k \<times> 'v) list \<Rightarrow> bool" where
  "map_has k m = (k \<in> set (map fst m))"

fun map_set :: "'k \<Rightarrow> 'v \<Rightarrow> ('k \<times> 'v) list \<Rightarrow> ('k \<times> 'v) list" where
  "map_set k v [] = [(k, v)]"
| "map_set k v (e # m) = (if fst e = k then (k, v) # m else e # map_set k v m)"

text \<open>
  \<open>score += (complexity[token] || 1)\<close> with
  \<open>complexity = {'^': 5, 'sqrt': 6, 'root': 7, '!': 8}\<close>; a number token counts 1.
\<close>

fun complexity :: "token \<Rightarrow> int" where
  "complexity (Op OpPow) = 5"
| "complexity (Op OpSqrt) = 6"
| "complexity (Op OpRoot) = 7"
| "complexity (Op OpFact) = 8"
| "complexity _ = 1"

definition calculateScore :: "token list \<Rightarrow> int" where
  "calculateScore rpn = fold (\<lambda>token score. score + complexity token) rpn 0"

text \<open>
  The two calls \<open>rpnToInfix(rpn)\<close> and \<open>calculateScore(rpn)\<close> inside a record literal.
\<close>

definition render :: "token list option \<Rightarrow> error + (string \<times> token list \<times> int)" where
  "render rpn =
     (case rpn of
        None \<Rightarrow> Inl TypeError
      | Some r \<Rightarrow>
          (case rpnToInfix r of
             None \<Rightarrow> Inl TypeError
           | Some expression \<Rightarrow> Inr (expression, r, calculateScore r)))"

definition is_closer :: "int \<Rightarrow> closest_record option \<Rightarrow> bool" where
  "is_closer distance c = (case c of None \<Rightarrow> True | Some cl \<Rightarrow> distance < cl_distance cl)"

text \<open>
  \<open>updateSolutions(value, rpn, type, sigmaData)\<close>. For \<open>value = Infinity\<close> the distance is
  infinite, neither test holds, and nothing changes.
\<close>

definition updateSolutions ::
  "int \<Rightarrow> jsnum \<Rightarrow> token list option \<Rightarrow> string \<Rightarrow> sigma option \<Rightarrow> tracker \<Rightarrow> error + tracker" where
  "updateSolutions target value rpn type sigmaData tr =
     (case value of
        PosInf \<Rightarrow> Inr tr
      | Fin v \<Rightarrow>
          (let distance = \<bar>v - target\<bar> in
           andThen
             (if is_closer distance (closest tr) then
                andThen (render rpn) (\<lambda>(expression, r, score).
                  Inr (tr\<lparr>closest := Some \<lparr>cl_value = v, cl_expression = expression,
                            cl_distance = distance, cl_rpn = r, cl_type = type,
                            cl_sigma = sigmaData, cl_score = score\<rparr>\<rparr>))
              else Inr tr)
             (\<lambda>tr1.
                if v = target \<and> \<not> map_has v (solutions tr1) then
                  andThen (render rpn) (\<lambda>(expression, r, score).
                    Inr (tr1\<lparr>solutions := map_set v
                           \<lparr>sol_value = v, sol_expression = Some expression, sol_rpn = Some r,
                            sol_type = type, sol_sigma = sigmaData, sol_score = score\<rparr>
                           (solutions tr1)\<rparr>))
                else Inr tr1)))"

text \<open>The invariant of the map: it holds at most one entry, under the key \<open>target\<close>.\<close>

definition at_most_target :: "int \<Rightarrow> tracker \<Rightarrow> bool" where
  "at_most_target target tr =
     (case solutions tr of [] \<Rightarrow> True | [e] \<Rightarrow> fst e = target | _ \<Rightarrow> False)"

subsection \<open>Operator assignments and shapes\<close>

text \<open>
  \<open>generateOpCombinations(ops, length, current)\<close>; the second argument here is
  \<open>length - current.length\<close>, the number of operators still to choose.
\<close>

fun generateOpCombinations :: "op list \<Rightarrow> nat \<Rightarrow> op list \<Rightarrow> op list list" where
  "generateOpCombinations ops 0 current = [current]"
| "generateOpCombinations ops (Suc missing) current =
     concat (map (\<lambda>op. generateOpCombinations ops missing (current @ [op])) ops)"

text \<open>\<open>value = evaluateRPN(rpn); if (value !== null) updateSolutions(value, rpn, 'normal')\<close>\<close>

definition try_rpn :: "int \<Rightarrow> token list \<Rightarrow> tracker \<Rightarrow> error + tracker" where
  "try_rpn target rpn tr =
     (case evaluateRPN rpn of
        None \<Rightarrow> Inr tr
      | Some value \<Rightarrow> updateSolutions target value (Some rpn) ''normal'' None tr)"

text \<open>
  The three candidates of one operator assignment: \<open>[...p]\<close> followed by all of
  \<open>opCombo\<close>; for four numbers \<open>[p0, p1, o0, p2, p3, o1, o2]\<close>; for five numbers
  \<open>[p0, p1, o0, p2, p3, o1, o2, p4, o3]\<close>. \<open>opCombo\<close> has \<open>p.length - 1\<close> entries, so
  every index is in range.
\<close>

definition shape_all_numbers_then_operators :: "int list \<Rightarrow> op list \<Rightarrow> token list" where
  "shape_all_numbers_then_operators p opCombo = map Num p @ map Op opCombo"

definition shape_two_pairs :: "int list \<Rightarrow> op list \<Rightarrow> token list" where
  "shape_two_pairs p opCombo =
     [Num (p ! 0), Num (p ! 1), Op (opCombo ! 0), Num (p ! 2), Num (p ! 3), Op (opCombo ! 1),
      Op (opCombo ! 2)]"

definition shape_two_pairs_and_one :: "int list \<Rightarrow> op list \<Rightarrow> token list" where
  "shape_two_pairs_and_one p opCombo =
     [Num (p ! 0), Num (p ! 1), Op (opCombo ! 0), Num (p ! 2), Num (p ! 3), Op (opCombo ! 1),
      Op (opCombo ! 2), Num (p ! 4), Op (opCombo ! 3)]"

definition try_shapes :: "int \<Rightarrow> int list \<Rightarrow> op list \<Rightarrow> tracker \<Rightarrow> error + tracker" where
  "try_shapes target p opCombo tr =
     andThen (try_rpn target (shape_all_numbers_then_operators p opCombo) tr) (\<lambda>tr1.
     andThen (if length p = 4 then try_rpn target (shape_two_pairs p opCombo) tr1 else Inr tr1)
       (\<lambda>tr2.
     if length p = 5 then try_rpn target (shape_two_pairs_and_one p opCombo) tr2 else Inr tr2))"

subsection \<open>The unary pass\<close>

text \<open>
  \<open>subSolutions.exactSolutions.forEach(s => updateSolutions(s.value, s.rpn, s.type, s.sigma))\<close>
\<close>

definition merge_sub :: "int \<Rightarrow> result \<Rightarrow> tracker \<Rightarrow> error + tracker" where
  "merge_sub target subSolutions tr =
     foldE (\<lambda>s. updateSolutions target (Fin (sol_value s)) (sol_rpn s) (sol_type s) (sol_sigma s))
       (exactSolutions subSolutions) tr"

text \<open>
  At position \<open>i\<close> the code works on one copy \<open>tempP = [...p]\<close>. The square root, when it
  is an integer, is written into \<open>tempP[i]\<close>; the factorial is then taken of \<open>tempP[i]\<close>
  as it is at that moment. \<open>sqrt_decorated\<close> and \<open>factorial_decorated\<close> give the number
  list of the recursive call of each branch, when the branch is taken.
\<close>

definition sqrt_decorated :: "op list \<Rightarrow> int list \<Rightarrow> nat \<Rightarrow> int list option" where
  "sqrt_decorated operators tempP i =
     (if OpSqrt \<in> set operators then
        (case math_sqrt (tempP ! i) of None \<Rightarrow> None | Some sqrtVal \<Rightarrow> Some (tempP[i := sqrtVal]))
      else None)"

definition factorial_decorated :: "op list \<Rightarrow> int list \<Rightarrow> nat \<Rightarrow> int list option" where
  "factorial_decorated operators tempP i =
     (if OpFact \<in> set operators then
        (case factorial (tempP ! i) of PosInf \<Rightarrow> None | Fin factVal \<Rightarrow> Some (tempP[i := factVal]))
      else None)"

text \<open>\<open>recur\<close> is the recursive call \<open>findSolutions(tempP, target, level)\<close>.\<close>

definition unary_at ::
  "(int list \<Rightarrow> int \<Rightarrow> level \<Rightarrow> error + result) \<Rightarrow> op list \<Rightarrow> int \<Rightarrow> level \<Rightarrow> int list \<Rightarrow>
   nat \<Rightarrow> tracker \<Rightarrow> error + tracker" where
  "unary_at recur operators target level p i tr =
     andThen
       (case sqrt_decorated operators p i of
          None \<Rightarrow> Inr (p, tr)
        | Some tempP \<Rightarrow>
            andThen (recur tempP target level) (\<lambda>subSolutions.
            andThen (merge_sub target subSolutions tr) (\<lambda>tr1. Inr (tempP, tr1))))
       (\<lambda>(tempP, tr1).
          case factorial_decorated operators tempP i of
            None \<Rightarrow> Inr tr1
          | Some tempP' \<Rightarrow>
              andThen (recur tempP' target level) (\<lambda>subSolutions.
              merge_sub target subSolutions tr1))"

text \<open>
  The body of \<open>for (const p of numPermutations)\<close>. For an empty \<open>p\<close> the call
  \<open>generateOpCombinations(operators, -1)\<close> would never reach \<open>current.length === length\<close>;
  \<open>numPermutations\<close> holds no empty list.
\<close>

definition process_permutation ::
  "(int list \<Rightarrow> int \<Rightarrow> level \<Rightarrow> error + result) \<Rightarrow> op list \<Rightarrow> int \<Rightarrow> level \<Rightarrow> int list \<Rightarrow>
   tracker \<Rightarrow> error + tracker" where
  "process_permutation recur operators target level p tr =
     (if p = [] then Inl DepthExceeded
      else
        andThen (foldE (try_shapes target p)
                   (generateOpCombinations operators (length p - 1) []) tr) (\<lambda>tr1.
        if level_ge_2 level then
          foldE (unary_at recur operators target level p) [0..<length p] tr1
        else Inr tr1))"

subsection \<open>The summation block\<close>

text \<open>
  One pair \<open>(i, j)\<close> of positions of \<open>p\<close>. The result of the recursive search is not
  used; the call is made, so its exception is not lost. \<open>level\<close> is the number \<open>3\<close> here.
\<close>

definition sigma_pair ::
  "(int list \<Rightarrow> int \<Rightarrow> level \<Rightarrow> error + result) \<Rightarrow> int \<Rightarrow> int list \<Rightarrow> nat \<Rightarrow> nat \<Rightarrow>
   tracker \<Rightarrow> error + tracker" where
  "sigma_pair recur target p i j tr =
     (if i = j then Inr tr
      else
        (let start = p ! i; endv = p ! j in
         if start \<ge> endv \<or> endv - start > 20 then Inr tr
         else
           (let remainingNums = map snd (filter (\<lambda>(idx, n). idx \<noteq> i \<and> idx \<noteq> j) (enumerate 0 p));
                sum = fold (\<lambda>k sum. sum + k) [start..endv] 0;
                newNums = remainingNums @ [sum]
            in andThen
                 (if length newNums > 0 then
                    andThen (recur newNums target (LvNum (min 3 2))) (\<lambda>subSolutions. Inr ())
                  else Inr ())
                 (\<lambda>u. if sum = target then
                        Inr (tr\<lparr>solutions := map_set target
                               \<lparr>sol_value = target, sol_expression = None, sol_rpn = None,
                                sol_type = ''sigma'',
                                sol_sigma = Some \<lparr>sigma_start = start, sigma_end = endv,
                                                  sigma_body = ''i''\<rparr>,
                                sol_score = 100\<rparr>
                               (solutions tr)\<rparr>)
                      else Inr tr))))"

definition sigma_block ::
  "(int list \<Rightarrow> int \<Rightarrow> level \<Rightarrow> error + result) \<Rightarrow> int \<Rightarrow> int list list \<Rightarrow> tracker \<Rightarrow>
   error + tracker" where
  "sigma_block recur target numPerms tr =
     foldE (\<lambda>p. foldE (\<lambda>i. foldE (\<lambda>j. sigma_pair recur target p i j) [0..<length p])
                   [0..<length p]) numPerms tr"

subsection \<open>The search\<close>

text \<open>
  \<open>Array.from(solutions.values()).filter(s => s.value === target)
  .sort((a, b) => a.score - b.score).slice(0, 3)\<close>; the sort is stable.
\<close>

definition distill :: "int \<Rightarrow> tracker \<Rightarrow> result" where
  "distill target tr =
     \<lparr>exactSolutions =
        take 3 (sort_key sol_score (filter (\<lambda>s. sol_value s = target) (map snd (solutions tr)))),
      result_closest = closest tr\<rparr>"

text \<open>
  The body of \<open>findSolutions\<close>, with the recursive call as a parameter. The local functions
  \<open>solve\<close> and \<open>generateAndTest\<close> are never called.
\<close>

definition findSolutions_body ::
  "(int list \<Rightarrow> int \<Rightarrow> level \<Rightarrow> error + result) \<Rightarrow> int list \<Rightarrow> int \<Rightarrow> level \<Rightarrow> error + result" where
  "findSolutions_body recur numbers target level =
     (let operators = operators_of level;
          numPerms = numPermutations numbers
      in andThen (foldE (process_permutation recur operators target level) numPerms
                    \<lparr>solutions = [], closest = None\<rparr>) (\<lambda>tr1.
         andThen (if level_is_3 level then sigma_block recur target numPerms tr1 else Inr tr1)
           (\<lambda>tr2. Inr (distill target tr2))))"

text \<open>
  \<open>findSolutions depth\<close> runs the search with at most \<open>depth\<close> nested calls, the outer one
  included.
\<close>

primrec findSolutions :: "nat \<Rightarrow> int list \<Rightarrow> int \<Rightarrow> level \<Rightarrow> error + result" where
  "findSolutions 0 numbers target level = Inl DepthExceeded"
| "findSolutions (Suc depth) numbers target level =
     findSolutions_body (findSolutions depth) numbers target level"

text \<open>
  The scores, the RPN sequences, and the pairs of value and score of the exact solutions of
  an outcome.
\<close>

definition exact_scores :: "error + result \<Rightarrow> int list" where
  "exact_scores outcome =
     (case outcome of Inl e \<Rightarrow> [] | Inr r \<Rightarrow> map sol_score (exactSolutions r))"

definition exact_rpns :: "error + result \<Rightarrow> token list option list" where
  "exact_rpns outcome =
     (case outcome of Inl e \<Rightarrow> [] | Inr r \<Rightarrow> map sol_rpn (exactSolutions r))"

definition exact_values_and_scores :: "error + result \<Rightarrow> (int \<times> int) list" where
  "exact_values_and_scores outcome =
     (case outcome of
        Inl e \<Rightarrow> []
      | Inr r \<Rightarrow> map (\<lambda>s. (sol_value s, sol_score s)) (exactSolutions r))"

section \<open>The evaluator\<close>

text \<open>
  C7. With the integers \<open>a\<close> (pushed first) and \<open>b\<close> on top of the stack, the \<open>/\<close> step
  succeeds exactly when \<open>b \<noteq> 0\<close> and \<open>a mod b = 0\<close>, and it then pushes the exact
  quotient: the number \<open>q\<close> with \<open>q * b = a\<close>. The evaluation of \<open>[a, b, /]\<close> behaves the
  same way.
\<close>

theorem division_step_exact:
  "(eval_step (Op OpDiv) (Fin b # Fin a # stack) = Some stack') =
     (b \<noteq> 0 \<and> a mod b = 0 \<and> stack' = Fin (a div b) # stack \<and> (a div b) * b = a)
   \<and> (evaluateRPN [Num a, Num b, Op OpDiv] = Some v) =
     (b \<noteq> 0 \<and> a mod b = 0 \<and> v = Fin (a div b))"
  by (auto simp: evaluateRPN_def)

theorem division_step_exact_witness:
  "evaluateRPN [Num 12, Num 4, Op OpDiv] = Some (Fin 3) \<and>
   evaluateRPN [Num 12, Num 5, Op OpDiv] = None \<and>
   evaluateRPN [Num 12, Num 0, Op OpDiv] = None"
proof -
  have "evaluateRPN [Num 12, Num 4, Op OpDiv] = Some (Fin 3)"
    using division_step_exact [of 4 12 "[]" "[Fin 3]" "Fin 3"] by simp
  moreover have "evaluateRPN [Num 12, Num 5, Op OpDiv] \<noteq> Some v" for v
    using division_step_exact [of 5 12 "[]" "[v]" v] by simp
  moreover have "evaluateRPN [Num 12, Num 0, Op OpDiv] \<noteq> Some v" for v
    using division_step_exact [of 0 12 "[]" "[v]" v] by simp
  ultimately show ?thesis by (metis option.exhaust)
qed

text \<open>
  No step yields a negative number: with non-negative number tokens, every stack value is
  a non-negative integer or \<open>Infinity\<close>.
\<close>

lemma fold_product_non_negative:
  "0 \<le> acc \<Longrightarrow> \<forall>i\<in>set is. 0 \<le> i \<Longrightarrow> (0::int) \<le> fold (\<lambda>i result. result * i) is acc"
  by (induction "is" arbitrary: acc) auto

lemma factorial_non_negative: "non_negative (factorial n)"
  by (auto simp: factorial_def intro!: fold_product_non_negative)

lemma unary_op_non_negative: "unary_op t a = Some r \<Longrightarrow> non_negative r"
  by (cases "(t, a)" rule: unary_op.cases)
     (auto simp: factorial_non_negative math_sqrt_def Let_def split: if_splits)

lemma binary_op_non_negative:
  "non_negative a \<Longrightarrow> non_negative b \<Longrightarrow> binary_op t a b = Some r \<Longrightarrow> non_negative r"
  by (cases "(t, a, b)" rule: binary_op.cases)
     (auto simp: nth_root_def Let_def pos_imp_zdiv_nonneg_iff split: if_splits)

lemma eval_step_non_negative:
  assumes "\<forall>v\<in>set st. non_negative v" and "number_tokens_non_negative [t]"
    and "eval_step t st = Some st'"
  shows "\<forall>v\<in>set st'. non_negative v"
proof (cases t)
  case (Num n)
  with assms show ?thesis by auto
next
  case (Op o1)
  show ?thesis
  proof (cases "o1 = OpFact \<or> o1 = OpSqrt")
    case True
    with assms Op show ?thesis
      by (cases st) (auto dest: unary_op_non_negative)
  next
    case False
    with assms Op show ?thesis
      by (cases st; cases "tl st") (auto dest: binary_op_non_negative)
  qed
qed

lemma eval_loop_non_negative:
  "\<forall>v\<in>set st. non_negative v \<Longrightarrow> number_tokens_non_negative ts \<Longrightarrow>
   eval_loop ts st = Some st' \<Longrightarrow> \<forall>v\<in>set st'. non_negative v"
proof (induction ts arbitrary: st)
  case Nil
  then show ?case by simp
next
  case (Cons t ts)
  from Cons.prems(3) obtain st1 where 1: "eval_step t st = Some st1" "eval_loop ts st1 = Some st'"
    by (auto split: option.splits)
  have "number_tokens_non_negative [t]" "number_tokens_non_negative ts"
    using Cons.prems(2) by (cases t; simp)+
  with Cons.IH [OF eval_step_non_negative [OF Cons.prems(1) _ 1(1)] _ 1(2)] show ?case by blast
qed

lemma evaluateRPN_never_negative:
  "number_tokens_non_negative rpn \<Longrightarrow> evaluateRPN rpn = Some v \<Longrightarrow> non_negative v"
proof -
  assume nn: "number_tokens_non_negative rpn" and "evaluateRPN rpn = Some v"
  then have "eval_loop rpn [] = Some [v]"
    by (auto simp: evaluateRPN_def split: option.splits list.splits)
  from eval_loop_non_negative [OF _ nn this] show ?thesis by simp
qed

text \<open>
  C3. An evaluation that succeeds has only non-negative integers on its stack, and \<open>!\<close> on
  an operand outside \<open>[0, 10]\<close> makes it fail. The code does otherwise: the \<open>!\<close> branch
  pushes \<open>factorial(a)\<close> unchecked, so \<open>[11, !]\<close> evaluates to \<open>Infinity\<close>, and
  \<open>[0, 11, !, /]\<close> succeeds with \<open>Infinity\<close> on the stack on the way.
\<close>

theorem factorial_sentinel_is_pushed:
  "evaluateRPN [Num 11, Op OpFact] = Some PosInf \<and>
   eval_loop [Num 0, Num 11, Op OpFact] [] = Some [PosInf, Fin 0] \<and>
   evaluateRPN [Num 0, Num 11, Op OpFact, Op OpDiv] = Some (Fin 0)"
  by code_simp

section \<open>The renderer\<close>

text \<open>
  The renderer pops what the evaluator pops, so it does not throw on a sequence that the
  evaluator accepts.
\<close>

lemma eval_step_renders:
  "eval_step t st = Some st' \<Longrightarrow> length est = length st \<Longrightarrow>
   \<exists>est'. infix_step t est = Some est' \<and> length est' = length st'"
proof (cases t)
  case (Num n)
  then show "eval_step t st = Some st' \<Longrightarrow> length est = length st \<Longrightarrow> ?thesis" by auto
next
  case (Op o1)
  assume ev: "eval_step t st = Some st'" and len: "length est = length st"
  show ?thesis
  proof (cases "o1 = OpFact \<or> o1 = OpSqrt")
    case True
    with ev Op obtain a rest where st: "st = a # rest" and "length st' = length st"
      by (cases st) auto
    moreover from st len obtain e erest where "est = e # erest" by (cases est) auto
    ultimately show ?thesis using True Op len by auto
  next
    case False
    with ev Op obtain b a rest where st: "st = b # a # rest" and l: "Suc (length st') = length st"
      by (cases st; cases "tl st") auto
    from st len obtain e1 e2 erest where "est = e1 # e2 # erest"
      by (cases est; cases "tl est") auto
    then show ?thesis using False Op len l by (auto simp: Let_def)
  qed
qed

lemma eval_loop_renders:
  "eval_loop ts st = Some st' \<Longrightarrow> length est = length st \<Longrightarrow>
   \<exists>est'. infix_loop ts est = Some est' \<and> length est' = length st'"
proof (induction ts arbitrary: st est)
  case Nil
  then show ?case by simp
next
  case (Cons t ts)
  from Cons.prems(1) obtain st1 where st1: "eval_step t st = Some st1" "eval_loop ts st1 = Some st'"
    by (auto split: option.splits)
  from eval_step_renders [OF st1(1) Cons.prems(2)]
  obtain est1 where est1: "infix_step t est = Some est1" "length est1 = length st1" by blast
  from Cons.IH [OF st1(2) est1(2)] est1(1) show ?case by simp
qed

lemma accepted_renders: "evaluateRPN rpn = Some v \<Longrightarrow> \<exists>s. rpnToInfix rpn = Some s"
proof -
  assume "evaluateRPN rpn = Some v"
  then have ev: "eval_loop rpn [] = Some [v]"
    by (auto simp: evaluateRPN_def split: option.splits list.splits)
  from eval_loop_renders [OF ev, of "[]"]
  obtain est where "infix_loop rpn [] = Some est" "length est = 1" by auto
  then show ?thesis by (cases est) (auto simp: rpnToInfix_def)
qed

text \<open>
  C6. The rendered string of an accepted sequence, read with the usual precedences, has
  the value that the evaluator computed. The code does otherwise: \<open>!\<close> is appended to its
  operand without parentheses, so \<open>(1+2)!\<close>, of value 6, and \<open>1+(2!)\<close>, of value 3, are both
  rendered as \<open>1+2!\<close>, and no reading of that string gives both values.
\<close>

theorem factorial_rendered_without_parentheses:
  "evaluateRPN [Num 1, Num 2, Op OpAdd, Op OpFact] = Some (Fin 6) \<and>
   rpnToInfix [Num 1, Num 2, Op OpAdd, Op OpFact] = Some ''1+2!'' \<and>
   evaluateRPN [Num 1, Num 2, Op OpFact, Op OpAdd] = Some (Fin 3) \<and>
   rpnToInfix [Num 1, Num 2, Op OpFact, Op OpAdd] = Some ''1+2!''"
  by code_simp

section \<open>Permutations\<close>

subsection \<open>Numbers survive the trip through strings\<close>

lemma below_ten: "(d::nat) < 10 \<Longrightarrow> d \<in> {0,1,2,3,4,5,6,7,8,9}"
  by auto

lemma digit_char_props:
  "d < 10 \<Longrightarrow> digit_char d \<noteq> CHR '','' \<and> digit_char d \<noteq> CHR ''-'' \<and> of_char (digit_char d) - 48 = d"
  by (drule below_ten) (auto simp: digit_char_def)

lemma string_of_nat_chars:
  "string_of_nat n \<noteq> [] \<and> (\<forall>c\<in>set (string_of_nat n). c \<noteq> CHR '','' \<and> c \<noteq> CHR ''-'')"
proof (induction n rule: string_of_nat.induct)
  case (1 n)
  show ?case
  proof (cases "n < 10")
    case True
    then show ?thesis
      by (subst string_of_nat.simps, subst (2) string_of_nat.simps) (simp add: digit_char_props)
  next
    case False
    have "n mod 10 < 10" by simp
    with False 1 show ?thesis
      by (subst string_of_nat.simps, subst (2) string_of_nat.simps) (auto simp: digit_char_props)
  qed
qed

lemma digits_value_snoc: "digits_value (s @ [c]) = 10 * digits_value s + (of_char c - 48)"
  by (simp add: digits_value_def)

lemma digits_value_string_of_nat: "digits_value (string_of_nat n) = n"
proof (induction n rule: string_of_nat.induct)
  case (1 n)
  show ?case
  proof (cases "n < 10")
    case True
    have "digits_value ([] @ [digit_char n]) = n"
      unfolding digits_value_snoc using True by (simp add: digit_char_props digits_value_def)
    with True show ?thesis
      by (subst string_of_nat.simps) simp
  next
    case False
    have "n mod 10 < 10" by simp
    then have "of_char (digit_char (n mod 10)) - 48 = n mod 10"
      by (simp add: digit_char_props)
    with False 1 show ?thesis
      by (subst string_of_nat.simps) (simp add: digits_value_snoc)
  qed
qed

lemma js_Number_toString: "js_Number (number_toString n) = n"
proof (cases "n < 0")
  case True
  then show ?thesis
    by (simp add: js_Number_def number_toString_def digits_value_string_of_nat)
next
  case False
  obtain c cs where s: "string_of_nat (nat n) = c # cs"
    using string_of_nat_chars [of "nat n"] by (cases "string_of_nat (nat n)") auto
  have "c \<noteq> CHR ''-''"
    using string_of_nat_chars [of "nat n"] s by auto
  moreover have "digits_value (c # cs) = nat n"
    using digits_value_string_of_nat [of "nat n"] s by simp
  ultimately show ?thesis
    using False s by (simp add: js_Number_def number_toString_def)
qed

lemma number_toString_no_comma: "CHR '','' \<notin> set (number_toString n)"
  using string_of_nat_chars by (auto simp: number_toString_def)

lemma split_comma_plain: "CHR '','' \<notin> set s \<Longrightarrow> split_comma s = [s]"
  by (induction s) auto

lemma split_comma_field: "CHR '','' \<notin> set s \<Longrightarrow> split_comma (s @ CHR '','' # t) = s # split_comma t"
  by (induction s) auto

lemma split_join:
  "ss \<noteq> [] \<Longrightarrow> \<forall>s\<in>set ss. CHR '','' \<notin> set s \<Longrightarrow> split_comma (join_comma ss) = ss"
  by (induction ss rule: join_comma.induct) (auto simp: split_comma_plain split_comma_field)

lemma number_roundtrip:
  "map js_Number (split_comma (join_comma (map number_toString p))) = (if p = [] then [0] else p)"
proof (cases "p = []")
  case True
  then show ?thesis by (simp add: js_Number_def)
next
  case False
  then have "split_comma (join_comma (map number_toString p)) = map number_toString p"
    by (intro split_join) (auto simp: number_toString_no_comma)
  with False show ?thesis
    by (simp add: js_Number_toString map_idI)
qed

subsection \<open>Removing duplicates\<close>

lemma fold_seen:
  "distinct acc \<Longrightarrow>
   distinct (fold (\<lambda>x seen. if x \<in> set seen then seen else seen @ [x]) xs acc) \<and>
   set (fold (\<lambda>x seen. if x \<in> set seen then seen else seen @ [x]) xs acc) = set acc \<union> set xs"
  by (induction xs arbitrary: acc) auto

lemma distinct_dedup: "distinct (dedup xs)"
  using fold_seen [of "[]" xs] by (simp add: dedup_def)

lemma set_dedup: "set (dedup xs) = set xs"
  using fold_seen [of "[]" xs] by (simp add: dedup_def)

lemma fold_seen_map:
  "inj_on f (set acc \<union> set xs) \<Longrightarrow>
   fold (\<lambda>x seen. if x \<in> set seen then seen else seen @ [x]) (map f xs) (map f acc) =
   map f (fold (\<lambda>x seen. if x \<in> set seen then seen else seen @ [x]) xs acc)"
proof (induction xs arbitrary: acc)
  case Nil
  then show ?case by simp
next
  case (Cons x xs)
  have mem: "f x \<in> f ` set acc \<longleftrightarrow> x \<in> set acc"
    using Cons.prems by (auto simp: inj_on_def)
  show ?case
  proof (cases "x \<in> set acc")
    case True
    then have "inj_on f (set acc \<union> set xs)"
      using Cons.prems by (auto simp: inj_on_def)
    from Cons.IH [OF this] True mem show ?thesis by simp
  next
    case False
    have "inj_on f (set (acc @ [x]) \<union> set xs)"
      using Cons.prems by (auto simp: inj_on_def)
    from Cons.IH [OF this] False mem show ?thesis by simp
  qed
qed

lemma dedup_map: "inj_on f (set xs) \<Longrightarrow> dedup (map f xs) = map f (dedup xs)"
  using fold_seen_map [of f "[]" xs] by (simp add: dedup_def)

lemma fold_seen_prefix:
  "\<exists>r. fold (\<lambda>x seen. if x \<in> set seen then seen else seen @ [x]) xs acc = acc @ r"
proof (induction xs arbitrary: acc)
  case Nil
  then show ?case by simp
next
  case (Cons x xs)
  show ?case using Cons.IH [of acc] Cons.IH [of "acc @ [x]"] by auto
qed

lemma dedup_head: "\<exists>r. dedup (y # ys) = y # r"
  using fold_seen_prefix [of ys "[y]"] by (simp add: dedup_def)

subsection \<open>All orderings\<close>

lemma mset_insert_at: "mset (take i perm @ x # drop i perm) = add_mset x (mset perm)"
proof -
  have "mset (take i perm) + mset (drop i perm) = mset perm"
    by (metis append_take_drop_id mset_append)
  then show ?thesis by simp
qed

lemma set_getPermutations: "set (getPermutations xs) = {p. mset p = mset xs}"
proof (induction xs)
  case Nil
  then show ?case by auto
next
  case (Cons x xs)
  show ?case
  proof (intro set_eqI iffI)
    fix p assume "p \<in> set (getPermutations (x # xs))"
    then obtain perm i where "perm \<in> set (getPermutations xs)" "p = take i perm @ x # drop i perm"
      by (auto simp del: upt_Suc)
    then have "mset p = add_mset x (mset perm)" "mset perm = mset xs"
      using Cons.IH by (simp_all only: mset_insert_at) simp
    then show "p \<in> {p. mset p = mset (x # xs)}"
      by simp
  next
    fix p assume "p \<in> {p. mset p = mset (x # xs)}"
    then have m: "mset p = add_mset x (mset xs)" by simp
    then have "x \<in> set p"
      by (metis mset.simps(2) list.set_intros(1) set_mset_mset)
    then obtain ys zs where p: "p = ys @ x # zs"
      by (auto dest: split_list)
    with m have "mset (ys @ zs) = mset xs" by simp
    with Cons.IH have perm: "ys @ zs \<in> set (getPermutations xs)" by simp
    have "p = take (length ys) (ys @ zs) @ x # drop (length ys) (ys @ zs)"
      using p by simp
    then have "p \<in> (\<lambda>i. take i (ys @ zs) @ x # drop i (ys @ zs)) ` {0..<Suc (length (ys @ zs))}"
      by (intro image_eqI [where x = "length ys"]) simp_all
    then have "\<exists>perm\<in>set (getPermutations xs).
                 p \<in> (\<lambda>i. take i perm @ x # drop i perm) ` {0..<Suc (length perm)}"
      using perm by blast
    then show "p \<in> set (getPermutations (x # xs))"
      by (simp only: getPermutations.simps set_concat set_map image_image set_upt UN_iff)
  qed
qed

lemma join_inj_on_permutations:
  "inj_on (\<lambda>p. join_comma (map number_toString p)) (set (getPermutations xs))"
proof (rule inj_onI)
  fix p q
  assume p: "p \<in> set (getPermutations xs)" and q: "q \<in> set (getPermutations xs)"
    and e: "join_comma (map number_toString p) = join_comma (map number_toString q)"
  from p q have "mset p = mset q" by (simp add: set_getPermutations)
  then have "length p = length q" by (metis size_mset)
  then have pq: "p = [] \<longleftrightarrow> q = []" by auto
  have "(if p = [] then [0] else p) = (if q = [] then [0] else q)"
    using e number_roundtrip [of p] number_roundtrip [of q] by simp
  with pq show "p = q" by (auto split: if_splits)
qed

lemma numPermutations_eq:
  "numPermutations numbers = map (\<lambda>p. if p = [] then [0] else p) (dedup (getPermutations numbers))"
proof -
  have "dedup (map (\<lambda>p. join_comma (map number_toString p)) (getPermutations numbers)) =
        map (\<lambda>p. join_comma (map number_toString p)) (dedup (getPermutations numbers))"
    by (rule dedup_map [OF join_inj_on_permutations])
  then show ?thesis
    by (simp only: numPermutations_def map_map o_def number_roundtrip)
qed

lemma getPermutations_head: "\<exists>rest. getPermutations xs = xs # rest"
proof (induction xs)
  case Nil
  then show ?case by simp
next
  case (Cons x xs)
  then obtain rest where r: "getPermutations xs = xs # rest" by blast
  have "[0..<Suc (length xs)] = 0 # [Suc 0..<Suc (length xs)]"
    by (simp add: upt_conv_Cons del: upt_Suc)
  then show ?case
    unfolding getPermutations.simps r by (simp del: upt_Suc)
qed

lemma numPermutations_head: "\<exists>rest. numPermutations (x # xs) = (x # xs) # rest"
proof -
  obtain r1 where "getPermutations (x # xs) = (x # xs) # r1"
    using getPermutations_head by blast
  moreover obtain r2 where "dedup ((x # xs) # r1) = (x # xs) # r2"
    using dedup_head [of "x # xs" r1] by blast
  ultimately show ?thesis by (simp add: numPermutations_eq)
qed

lemma numPermutations_nonempty: "p \<in> set (numPermutations numbers) \<Longrightarrow> p \<noteq> []"
  by (auto simp: numPermutations_eq)

lemma numPermutations_empty: "numPermutations [] = [[0]]"
  by (simp add: numPermutations_eq dedup_def)

lemma numPermutations_zero: "numPermutations [0] = [[0]]"
  by (simp add: numPermutations_eq dedup_def)

text \<open>
  C8, as stated for every input, fails at the empty sequence: its only ordering is the
  empty one, which \<open>getPermutations\<close> finds, but the trip through strings returns \<open>[0]\<close>
  in its place, and \<open>[0]\<close> is no ordering of the empty sequence.
\<close>

theorem empty_sequence_ordering_is_lost:
  "getPermutations ([] :: int list) = [[]] \<and> numPermutations [] = [[0]] \<and>
   [] \<notin> set (numPermutations []) \<and> mset [0 :: int] \<noteq> mset []"
  by (simp add: numPermutations_empty)

text \<open>
  C8, for a non-empty input. The permutation generator returns every distinct ordering of
  a non-empty input exactly once: its elements are exactly the orderings of the input; the
  returned list has no repetition, for any input; and \<open>[2, 2, 3]\<close> gives 3 orderings where
  \<open>getPermutations\<close> alone gives 6.
\<close>

theorem permutations_distinct_complete:
  "distinct (numPermutations numbers) \<and>
   (numbers \<noteq> [] \<longrightarrow> set (numPermutations numbers) = {p. mset p = mset numbers}) \<and>
   getPermutations [2, 2, 3 :: int] = [[2,2,3],[2,2,3],[2,3,2],[2,3,2],[3,2,2],[3,2,2]] \<and>
   numPermutations [2, 2, 3] = [[2, 2, 3], [2, 3, 2], [3, 2, 2]]"
proof (intro conjI impI)
  have inj: "inj_on (\<lambda>p. if p = [] then [0] else p) (set (getPermutations numbers))"
  proof (rule inj_onI)
    fix p q :: "int list"
    assume "p \<in> set (getPermutations numbers)" "q \<in> set (getPermutations numbers)"
      and e: "(if p = [] then [0] else p) = (if q = [] then [0] else q)"
    then have "mset p = mset q" by (simp add: set_getPermutations)
    then have "length p = length q" by (metis size_mset)
    then have "p = [] \<longleftrightarrow> q = []" by auto
    with e show "p = q" by (auto split: if_splits)
  qed
  show "distinct (numPermutations numbers)"
    unfolding numPermutations_eq
    by (simp add: distinct_map distinct_dedup set_dedup inj)
  show "getPermutations [2, 2, 3 :: int] = [[2,2,3],[2,2,3],[2,3,2],[2,3,2],[3,2,2],[3,2,2]]"
    by code_simp
  show "numPermutations [2, 2, 3] = [[2, 2, 3], [2, 3, 2], [3, 2, 2]]"
    by code_simp
next
  assume ne: "numbers \<noteq> []"
  have "\<forall>p\<in>set (getPermutations numbers). p \<noteq> []"
    using ne by (auto simp: set_getPermutations)
  then have "map (\<lambda>p. if p = [] then [0] else p) (dedup (getPermutations numbers)) = dedup (getPermutations numbers)"
    by (intro map_idI) (simp add: set_dedup)
  then show "set (numPermutations numbers) = {p. mset p = mset numbers}"
    by (simp add: numPermutations_eq set_dedup set_getPermutations)
qed

theorem permutations_distinct_complete_witness:
  "[2, 2, 3 :: int] \<noteq> [] \<and> set (numPermutations [2, 2, 3]) = {p. mset p = mset [2, 2, 3]} \<and>
   length (numPermutations [2, 2, 3]) = 3 \<and> length (getPermutations [2, 2, 3 :: int]) = 6"
proof -
  have ne: "[2, 2, 3 :: int] \<noteq> []" by simp
  from permutations_distinct_complete [of "[2, 2, 3]"] ne
  have "set (numPermutations [2, 2, 3]) = {p. mset p = mset [2, 2, 3]}"
    and "numPermutations [2, 2, 3] = [[2, 2, 3], [2, 3, 2], [3, 2, 2]]"
    and "getPermutations [2, 2, 3 :: int] = [[2,2,3],[2,2,3],[2,3,2],[2,3,2],[3,2,2],[3,2,2]]"
    by blast+
  with ne show ?thesis by simp
qed

section \<open>The search\<close>

subsection \<open>Loops and exceptions\<close>

lemma andThen_Inl [simp]: "andThen (Inl e) f = Inl e"
  by (simp add: andThen_def)

lemma andThen_Inr [simp]: "andThen (Inr x) f = f x"
  by (simp add: andThen_def)

lemma foldE_total:
  "(\<And>x s. \<exists>s'. f x s = Inr s') \<Longrightarrow> \<exists>s'. foldE f xs s = Inr s'"
proof (induction xs arbitrary: s)
  case Nil
  then show ?case by simp
next
  case (Cons x xs)
  obtain s1 where "f x s = Inr s1" using Cons.prems by blast
  moreover obtain s2 where "foldE f xs s1 = Inr s2" using Cons.IH Cons.prems by blast
  ultimately show ?case by simp
qed

lemma foldE_preserves:
  "P s \<Longrightarrow> (\<And>x s s'. P s \<Longrightarrow> f x s = Inr s' \<Longrightarrow> P s') \<Longrightarrow> foldE f xs s = Inr s' \<Longrightarrow> P s'"
proof (induction xs arbitrary: s)
  case Nil
  then show ?case by simp
next
  case (Cons x xs)
  from Cons.prems(3) obtain s1 where s1: "f x s = Inr s1" "foldE f xs s1 = Inr s'"
    by (auto split: sum.splits)
  have "P s1" using Cons.prems(1,2) s1(1) by blast
  then show ?case using Cons.IH Cons.prems(2) s1(2) by blast
qed

lemma foldE_fixed: "(\<And>x. x \<in> set xs \<Longrightarrow> f x s = Inr s) \<Longrightarrow> foldE f xs s = Inr s"
  by (induction xs) auto

lemma length_generateOpCombinations:
  "opCombo \<in> set (generateOpCombinations ops missing current) \<Longrightarrow>
   length opCombo = length current + missing"
  by (induction missing arbitrary: current) auto

lemma generateOpCombinations_head:
  "\<exists>rest. generateOpCombinations (op # ops) missing current = (current @ replicate missing op) # rest"
proof (induction missing arbitrary: current)
  case 0
  then show ?case by simp
next
  case (Suc missing)
  obtain rest where "generateOpCombinations (op # ops) missing (current @ [op]) =
      ((current @ [op]) @ replicate missing op) # rest"
    using Suc by blast
  then show ?case by (simp add: replicate_app_Cons_same)
qed

lemma operators_of_strings:
  "operators_of LvB = [OpAdd, OpSub, OpMul, OpDiv]"
  "operators_of Lv1 = [OpAdd, OpSub, OpMul, OpDiv, OpPow]"
  "operators_of Lv2 = [OpAdd, OpSub, OpMul, OpDiv, OpPow, OpSqrt, OpRoot]"
  "operators_of Lv3 = [OpAdd, OpSub, OpMul, OpDiv, OpPow, OpSqrt, OpRoot, OpFact]"
  by (simp_all add: operators_of_def opsByLevel_def)

lemma operators_of_number_3:
  "operators_of (LvNum 3) = [OpAdd, OpSub, OpMul, OpDiv, OpPow, OpSqrt, OpRoot, OpFact]"
  by code_simp

subsection \<open>The shapes never throw\<close>

lemma updateSolutions_total:
  "rpnToInfix r = Some e \<Longrightarrow> \<exists>tr'. updateSolutions target value (Some r) ty sg tr = Inr tr'"
  by (cases "value") (auto simp: updateSolutions_def render_def Let_def)

lemma try_rpn_total: "\<exists>tr'. try_rpn target rpn tr = Inr tr'"
proof (cases "evaluateRPN rpn")
  case None
  then show ?thesis by (simp add: try_rpn_def)
next
  case (Some v)
  then obtain e where "rpnToInfix rpn = Some e" using accepted_renders by blast
  from updateSolutions_total [OF this] Some show ?thesis by (simp add: try_rpn_def)
qed

lemma guarded_try_total: "\<exists>tr'. (if c then try_rpn target rpn tr else Inr tr) = Inr tr'"
  using try_rpn_total by (cases c) auto

lemma try_shapes_total: "\<exists>tr'. try_shapes target p opCombo tr = Inr tr'"
proof -
  obtain tr1 where 1: "try_rpn target (shape_all_numbers_then_operators p opCombo) tr = Inr tr1"
    using try_rpn_total by blast
  obtain tr2 where 2:
    "(if length p = 4 then try_rpn target (shape_two_pairs p opCombo) tr1 else Inr tr1) = Inr tr2"
    using guarded_try_total by blast
  obtain tr3 where 3:
    "(if length p = 5 then try_rpn target (shape_two_pairs_and_one p opCombo) tr2 else Inr tr2)
       = Inr tr3"
    using guarded_try_total by blast
  show ?thesis
    unfolding try_shapes_def by (simp only: 1 2 3 andThen_Inr) blast
qed

lemma shapes_loop_total:
  "\<exists>tr'. foldE (try_shapes target p) combos tr = Inr tr'"
  by (rule foldE_total) (rule try_shapes_total)

lemma process_permutation_plain:
  "p \<noteq> [] \<Longrightarrow> \<not> level_ge_2 level \<Longrightarrow>
   \<exists>tr'. process_permutation recur operators target level p tr = Inr tr'"
  using shapes_loop_total [of target p "generateOpCombinations operators (length p - 1) []" tr]
  by (auto simp: process_permutation_def)

text \<open>
  Below level 2 there is no recursive call, and the search returns at depth 1.
\<close>

lemma basic_levels_return:
  "\<not> level_ge_2 level \<Longrightarrow> \<exists>r. findSolutions (Suc depth) numbers target level = Inr r"
proof -
  assume lv: "\<not> level_ge_2 level"
  have "\<exists>tr'. foldE (process_permutation (findSolutions depth) (operators_of level) target level)
          ps tr = Inr tr'" if "\<forall>p\<in>set ps. p \<noteq> []" for ps tr
    using that
  proof (induction ps arbitrary: tr)
    case Nil
    then show ?case by simp
  next
    case (Cons p ps)
    then obtain tr1 where
      "process_permutation (findSolutions depth) (operators_of level) target level p tr = Inr tr1"
      using process_permutation_plain [OF _ lv] by (metis list.set_intros(1))
    then show ?case using Cons by simp
  qed
  then obtain tr1 where
    "foldE (process_permutation (findSolutions depth) (operators_of level) target level)
       (numPermutations numbers) \<lparr>solutions = [], closest = None\<rparr> = Inr tr1"
    using numPermutations_nonempty by blast
  moreover have "\<not> level_is_3 level"
    using lv by (auto simp: level_is_3_def)
  ultimately show ?thesis
    by (simp add: findSolutions_body_def)
qed

subsection \<open>A square root that changes nothing\<close>

text \<open>
  \<open>Math.sqrt\<close> of 0 and of 1 is the number itself. From level 2 on, a number list that
  starts with 0 or 1 is its own first permutation, and position 0 of the unary pass calls
  \<open>findSolutions\<close> on the same list again.
\<close>

lemma math_sqrt_0_1: "math_sqrt 0 = Some 0" "math_sqrt 1 = Some 1"
  by (simp_all add: math_sqrt_def root_search.simps)

lemma unary_at_sqrt_fixpoint:
  assumes "x = 0 \<or> x = 1" and "OpSqrt \<in> set operators"
    and "recur (x # xs) target level = Inl e"
  shows "unary_at recur operators target level (x # xs) 0 tr = Inl e"
proof -
  have "sqrt_decorated operators (x # xs) 0 = Some (x # xs)"
    using assms(1,2) by (auto simp: sqrt_decorated_def math_sqrt_0_1)
  then show ?thesis using assms(3) by (simp add: unary_at_def)
qed

lemma process_permutation_sqrt_fixpoint:
  assumes "x = 0 \<or> x = 1" and "OpSqrt \<in> set operators" and "level_ge_2 level"
    and "recur (x # xs) target level = Inl e"
  shows "process_permutation recur operators target level (x # xs) tr = Inl e"
proof -
  obtain tr1 where 1:
    "foldE (try_shapes target (x # xs))
       (generateOpCombinations operators (length (x # xs) - 1) []) tr = Inr tr1"
    using shapes_loop_total by blast
  have 2: "[0..<length (x # xs)] = 0 # [Suc 0..<length (x # xs)]"
    by (simp add: upt_conv_Cons del: upt_Suc)
  have 3: "unary_at recur operators target level (x # xs) 0 tr1 = Inl e"
    using assms by (intro unary_at_sqrt_fixpoint)
  show ?thesis
    unfolding process_permutation_def using assms(3) 
    by (simp only: 1 2 andThen_Inr foldE.simps 3 list.simps if_False if_True sum.case)
qed

lemma body_sqrt_fixpoint:
  assumes "x = 0 \<or> x = 1" and "OpSqrt \<in> set (operators_of level)" and "level_ge_2 level"
    and "recur (x # xs) target level = Inl e"
  shows "findSolutions_body recur (x # xs) target level = Inl e"
proof -
  obtain rest where r: "numPermutations (x # xs) = (x # xs) # rest"
    using numPermutations_head by blast
  have "process_permutation recur (operators_of level) target level (x # xs)
          \<lparr>solutions = [], closest = None\<rparr> = Inl e"
    using assms by (intro process_permutation_sqrt_fixpoint)
  then show ?thesis
    by (simp add: findSolutions_body_def r)
qed

lemma sqrt_fixpoint_never_returns:
  assumes "x = 0 \<or> x = 1" and "OpSqrt \<in> set (operators_of level)" and "level_ge_2 level"
  shows "findSolutions depth (x # xs) target level = Inl DepthExceeded"
proof (induction depth)
  case 0
  show ?case by simp
next
  case (Suc depth)
  from body_sqrt_fixpoint [where recur = "findSolutions depth", OF assms Suc]
  show ?case by simp
qed

lemma depth_of_nine:
  "findSolutions 3 [9] 0 Lv3 = Inl DepthExceeded"
  "findSolutions 4 [9] 0 Lv3 =
     Inr \<lparr>exactSolutions = [],
          result_closest =
            Some \<lparr>cl_value = 9, cl_expression = ''9'', cl_distance = 9, cl_rpn = [Num 9],
                  cl_type = ''normal'', cl_sigma = None, cl_score = 1\<rparr>\<rparr>"
  by code_simp+

text \<open>
  C1. \<open>findSolutions([1,5,9,9], 15, "3")\<close> returns the summation record for \<open>1 .. 5\<close> among
  its exact solutions. The code does otherwise: the call never returns, at any depth,
  whether the level is the string \<open>"3"\<close> or the number 3; and for the string \<open>"3"\<close> the
  test \<open>level === 3\<close> that guards the summation block is false.
\<close>

theorem level3_scenario_never_returns:
  "findSolutions depth [1, 5, 9, 9] 15 Lv3 = Inl DepthExceeded \<and>
   findSolutions depth [1, 5, 9, 9] 15 (LvNum 3) = Inl DepthExceeded \<and>
   \<not> level_is_3 Lv3"
  by (simp add: sqrt_fixpoint_never_returns operators_of_strings operators_of_number_3
      level_is_3_def)

text \<open>
  C2. \<open>findSolutions\<close> terminates on every input, with a recursion depth bounded by the
  number of input numbers. The code does otherwise: on \<open>[1]\<close> at level \<open>"2"\<close> it never
  returns, at any depth; and on the single number \<open>[9]\<close> at level \<open>"3"\<close> it returns, but
  only with three nested calls below the outer one.
\<close>

theorem sqrt_of_one_recurses_forever:
  "findSolutions depth [1] target Lv2 = Inl DepthExceeded \<and>
   findSolutions 3 [9] 0 Lv3 = Inl DepthExceeded \<and>
   findSolutions 4 [9] 0 Lv3 =
     Inr \<lparr>exactSolutions = [],
          result_closest =
            Some \<lparr>cl_value = 9, cl_expression = ''9'', cl_distance = 9, cl_rpn = [Num 9],
                  cl_type = ''normal'', cl_sigma = None, cl_score = 1\<rparr>\<rparr>"
  by (simp only: depth_of_nine) (simp add: sqrt_fixpoint_never_returns operators_of_strings)

subsection \<open>The factorial branch of the unary pass\<close>

lemma decorations_of_nine:
  "sqrt_decorated (operators_of Lv3) [9] 0 = Some [3]"
  "factorial_decorated (operators_of Lv3) [3] 0 = Some [6]"
  "factorial 9 = Fin 362880"
  by code_simp+

text \<open>
  C4. At each position the factorial search runs on \<open>p\<close> with the factorial of the
  original number, whether or not the square root applies there. The code does otherwise:
  for \<open>p = [9]\<close> the square-root branch leaves 3 in \<open>tempP\<close>, the factorial branch searches
  \<open>[6]\<close>, the factorial of 3, and \<open>[362880]\<close>, the factorial of 9, is never searched: the
  target 362880 has no exact solution.
\<close>

theorem factorial_decoration_uses_square_root:
  "sqrt_decorated (operators_of Lv3) [9] 0 = Some [3] \<and>
   factorial_decorated (operators_of Lv3) [3] 0 = Some [6] \<and>
   factorial 9 = Fin 362880 \<and>
   unary_at recur (operators_of Lv3) target Lv3 [9] 0 tr =
     andThen (recur [3] target Lv3) (\<lambda>subSolutions.
     andThen (merge_sub target subSolutions tr) (\<lambda>tr1.
     andThen (recur [6] target Lv3) (\<lambda>subSolutions. merge_sub target subSolutions tr1))) \<and>
   findSolutions 4 [9] 362880 Lv3 =
     Inr \<lparr>exactSolutions = [],
          result_closest =
            Some \<lparr>cl_value = 9, cl_expression = ''9'', cl_distance = 362871, cl_rpn = [Num 9],
                  cl_type = ''normal'', cl_sigma = None, cl_score = 1\<rparr>\<rparr>"
proof (intro conjI)
  show "unary_at recur (operators_of Lv3) target Lv3 [9] 0 tr =
     andThen (recur [3] target Lv3) (\<lambda>subSolutions.
     andThen (merge_sub target subSolutions tr) (\<lambda>tr1.
     andThen (recur [6] target Lv3) (\<lambda>subSolutions. merge_sub target subSolutions tr1)))"
    by (simp add: unary_at_def decorations_of_nine andThen_def split: sum.splits)
  show "findSolutions 4 [9] 362880 Lv3 =
     Inr \<lparr>exactSolutions = [],
          result_closest =
            Some \<lparr>cl_value = 9, cl_expression = ''9'', cl_distance = 362871, cl_rpn = [Num 9],
                  cl_type = ''normal'', cl_sigma = None, cl_score = 1\<rparr>\<rparr>"
    by code_simp
qed (simp_all add: decorations_of_nine)

subsection \<open>A tracker that holds an exact solution\<close>

text \<open>
  Once the map has an entry for the target and the closest record has distance 0, no
  further candidate changes the tracker.
\<close>

lemma updateSolutions_settled:
  assumes "map_has target (solutions tr)" and "closest tr = Some c" and "cl_distance c = 0"
  shows "updateSolutions target value rpn ty sg tr = Inr tr"
proof (cases "value")
  case PosInf
  then show ?thesis by (simp add: updateSolutions_def)
next
  case (Fin v)
  have "\<not> is_closer \<bar>v - target\<bar> (closest tr)"
    using assms(2,3) by (simp add: is_closer_def)
  then show ?thesis
    using Fin assms(1) by (auto simp: updateSolutions_def Let_def)
qed

lemma try_rpn_settled:
  assumes "map_has target (solutions tr)" and "closest tr = Some c" and "cl_distance c = 0"
  shows "try_rpn target rpn tr = Inr tr"
  using updateSolutions_settled [OF assms] by (simp add: try_rpn_def split: option.splits)

lemma try_shapes_settled:
  assumes "map_has target (solutions tr)" and "closest tr = Some c" and "cl_distance c = 0"
  shows "try_shapes target p opCombo tr = Inr tr"
  by (simp add: try_shapes_def try_rpn_settled [OF assms])

lemma process_permutation_settled:
  assumes "map_has target (solutions tr)" and "closest tr = Some c" and "cl_distance c = 0"
    and "p \<noteq> []" and "\<not> level_ge_2 level"
  shows "process_permutation recur operators target level p tr = Inr tr"
proof -
  have "foldE (try_shapes target p) (generateOpCombinations operators (length p - 1) []) tr = Inr tr"
    by (rule foldE_fixed) (rule try_shapes_settled [OF assms(1-3)])
  then show ?thesis using assms(4,5) by (simp add: process_permutation_def)
qed

lemma first_candidate_1234:
  "evaluateRPN [Num 1, Num 2, Num 3, Num 4, Op OpAdd, Op OpAdd, Op OpAdd] = Some (Fin 10)"
  "rpnToInfix [Num 1, Num 2, Num 3, Num 4, Op OpAdd, Op OpAdd, Op OpAdd] = Some ''1+(2+(3+4))''"
  "calculateScore [Num 1, Num 2, Num 3, Num 4, Op OpAdd, Op OpAdd, Op OpAdd] = 7"
  "shape_all_numbers_then_operators [1, 2, 3, 4] [OpAdd, OpAdd, OpAdd] =
     [Num 1, Num 2, Num 3, Num 4, Op OpAdd, Op OpAdd, Op OpAdd]"
  by code_simp+

text \<open>
  What \<open>findSolutions([1,2,3,4], 10, "B")\<close> returns: the first candidate tried hits the
  target, and no later candidate changes the tracker.
\<close>

lemma search_1234_result:
  "findSolutions (Suc depth) [1, 2, 3, 4] 10 LvB =
     Inr \<lparr>exactSolutions =
            [\<lparr>sol_value = 10, sol_expression = Some ''1+(2+(3+4))'',
              sol_rpn = Some [Num 1, Num 2, Num 3, Num 4, Op OpAdd, Op OpAdd, Op OpAdd],
              sol_type = ''normal'', sol_sigma = None, sol_score = 7\<rparr>],
          result_closest =
            Some \<lparr>cl_value = 10, cl_expression = ''1+(2+(3+4))'', cl_distance = 0,
                  cl_rpn = [Num 1, Num 2, Num 3, Num 4, Op OpAdd, Op OpAdd, Op OpAdd],
                  cl_type = ''normal'', cl_sigma = None, cl_score = 7\<rparr>\<rparr>"
proof -
  define rpn where "rpn = [Num 1, Num 2, Num 3, Num 4, Op OpAdd, Op OpAdd, Op OpAdd]"
  define s where "s = \<lparr>sol_value = 10, sol_expression = Some ''1+(2+(3+4))'', sol_rpn = Some rpn,
              sol_type = ''normal'', sol_sigma = None, sol_score = 7\<rparr>"
  define c where "c = \<lparr>cl_value = 10, cl_expression = ''1+(2+(3+4))'', cl_distance = 0,
                  cl_rpn = rpn, cl_type = ''normal'', cl_sigma = None, cl_score = 7\<rparr>"
  define tr where "tr = \<lparr>solutions = [(10, s)], closest = Some c\<rparr>"
  let ?recur = "findSolutions depth"
  let ?ops = "[OpAdd, OpSub, OpMul, OpDiv]"
  have settled: "map_has 10 (solutions tr)" "closest tr = Some c" "cl_distance c = 0"
    by (simp_all add: tr_def c_def map_has_def)
  obtain combos where combos:
    "generateOpCombinations ?ops (length [1, 2, 3, 4 :: int] - 1) [] = [OpAdd, OpAdd, OpAdd] # combos"
    using generateOpCombinations_head [of OpAdd "[OpSub, OpMul, OpDiv]" 3 "[]"]
    by (auto simp: numeral_3_eq_3)
  have first: "try_rpn 10 (shape_all_numbers_then_operators [1, 2, 3, 4] [OpAdd, OpAdd, OpAdd])
                 \<lparr>solutions = [], closest = None\<rparr> = Inr tr"
    by (simp add: try_rpn_def first_candidate_1234 updateSolutions_def render_def is_closer_def
        map_has_def tr_def s_def c_def rpn_def)
  have shapes: "try_shapes 10 [1, 2, 3, 4] [OpAdd, OpAdd, OpAdd] \<lparr>solutions = [], closest = None\<rparr> = Inr tr"
    unfolding try_shapes_def first by (simp add: try_rpn_settled [OF settled])
  have perm1: "process_permutation ?recur ?ops 10 LvB [1, 2, 3, 4] \<lparr>solutions = [], closest = None\<rparr> = Inr tr"
    unfolding process_permutation_def combos
    by (simp add: shapes foldE_fixed try_shapes_settled [OF settled])
  obtain rest where rest: "numPermutations [1, 2, 3, 4] = [1, 2, 3, 4] # rest"
    using numPermutations_head by blast
  have "\<forall>p\<in>set rest. p \<noteq> []"
    using numPermutations_nonempty [of _ "[1, 2, 3, 4]"] rest by auto
  then have others: "foldE (process_permutation ?recur ?ops 10 LvB) rest tr = Inr tr"
    by (intro foldE_fixed process_permutation_settled [OF settled]) auto
  have "distill 10 tr = \<lparr>exactSolutions = [s], result_closest = Some c\<rparr>"
    by (simp add: distill_def tr_def s_def)
  then show ?thesis
    by (simp add: findSolutions_body_def operators_of_strings rest perm1 others level_is_3_def
        s_def c_def rpn_def)
qed

text \<open>
  The left fold \<open>((a op b) op c)\<close> that the comment on the first shape names is not among
  the candidates: \<open>[...p]\<close> followed by the operators nests to the right. For the numbers
  \<open>[7, 1, 3]\<close> and the target 2, \<open>(7-1)/3\<close> is not found.
\<close>

lemma left_fold_is_not_built:
  "evaluateRPN [Num 7, Num 1, Op OpSub, Num 3, Op OpDiv] = Some (Fin 2) \<and>
   exact_rpns (findSolutions 1 [7, 1, 3] 2 LvB) = []"
  by code_simp

text \<open>
  C5, with the score that \<open>calculateScore\<close> gives. For
  \<open>findSolutions([1,2,3,4], 10, "B")\<close> the sequence \<open>[1, 2, +, 3, +, 4, +]\<close> evaluates to 10
  and scores 7, one for each of its seven tokens, and a record with value 10 and score 7 is
  among the exact solutions returned, at every depth from 1 on.
\<close>

theorem scenario_1234_value_10_score_7:
  "evaluateRPN [Num 1, Num 2, Op OpAdd, Num 3, Op OpAdd, Num 4, Op OpAdd] = Some (Fin 10) \<and>
   calculateScore [Num 1, Num 2, Op OpAdd, Num 3, Op OpAdd, Num 4, Op OpAdd] = 7 \<and>
   (10, 7) \<in> set (exact_values_and_scores (findSolutions (Suc depth) [1, 2, 3, 4] 10 LvB))"
proof -
  have "evaluateRPN [Num 1, Num 2, Op OpAdd, Num 3, Op OpAdd, Num 4, Op OpAdd] = Some (Fin 10)"
    by code_simp
  moreover have "calculateScore [Num 1, Num 2, Op OpAdd, Num 3, Op OpAdd, Num 4, Op OpAdd] = 7"
    by code_simp
  moreover have
    "(10, 7) \<in> set (exact_values_and_scores (findSolutions (Suc depth) [1, 2, 3, 4] 10 LvB))"
    unfolding search_1234_result by (simp add: exact_values_and_scores_def)
  ultimately show ?thesis by blast
qed

text \<open>
  C5, as stated, fails: the sequence \<open>[1, 2, +, 3, +, 4, +]\<close> scores 7, not 4, and no exact
  solution returned has the score 4.
\<close>

theorem scenario_1234_score_is_not_4:
  "calculateScore [Num 1, Num 2, Op OpAdd, Num 3, Op OpAdd, Num 4, Op OpAdd] = 7 \<and>
   exact_scores (findSolutions 1 [1, 2, 3, 4] 10 LvB) = [7] \<and>
   4 \<notin> set (exact_scores (findSolutions 1 [1, 2, 3, 4] 10 LvB))"
proof -
  have run: "findSolutions 1 [1, 2, 3, 4] 10 LvB =
     Inr \<lparr>exactSolutions =
            [\<lparr>sol_value = 10, sol_expression = Some ''1+(2+(3+4))'',
              sol_rpn = Some [Num 1, Num 2, Num 3, Num 4, Op OpAdd, Op OpAdd, Op OpAdd],
              sol_type = ''normal'', sol_sigma = None, sol_score = 7\<rparr>],
          result_closest =
            Some \<lparr>cl_value = 10, cl_expression = ''1+(2+(3+4))'', cl_distance = 0,
                  cl_rpn = [Num 1, Num 2, Num 3, Num 4, Op OpAdd, Op OpAdd, Op OpAdd],
                  cl_type = ''normal'', cl_sigma = None, cl_score = 7\<rparr>\<rparr>"
    by code_simp
  have score: "calculateScore [Num 1, Num 2, Op OpAdd, Num 3, Op OpAdd, Num 4, Op OpAdd] = 7"
    by code_simp
  show ?thesis
    unfolding run by (simp add: score exact_scores_def)
qed

subsection \<open>At most one exact solution\<close>

lemma at_most_target_cases:
  "at_most_target target tr \<longleftrightarrow> solutions tr = [] \<or> (\<exists>s. solutions tr = [(target, s)])"
  by (auto simp: at_most_target_def split: list.splits)

lemma updateSolutions_keeps_single:
  assumes "at_most_target target tr" and "updateSolutions target value rpn ty sg tr = Inr tr'"
  shows "at_most_target target tr'"
proof (cases "value")
  case PosInf
  with assms show ?thesis by (simp add: updateSolutions_def)
next
  case (Fin v)
  from assms(1) consider "solutions tr = []" | s where "solutions tr = [(target, s)]"
    by (auto simp: at_most_target_cases)
  then show ?thesis
  proof cases
    case 1
    with assms(2) Fin show ?thesis
      by (auto simp: updateSolutions_def Let_def andThen_def at_most_target_cases map_has_def
          split: sum.splits if_splits)
  next
    case 2
    with assms(2) Fin show ?thesis
      by (auto simp: updateSolutions_def Let_def andThen_def at_most_target_cases map_has_def
          split: sum.splits if_splits)
  qed
qed

lemma try_rpn_keeps_single:
  "at_most_target target tr \<Longrightarrow> try_rpn target rpn tr = Inr tr' \<Longrightarrow> at_most_target target tr'"
  by (auto simp: try_rpn_def split: option.splits dest: updateSolutions_keeps_single)

lemma try_shapes_keeps_single:
  "at_most_target target tr \<Longrightarrow> try_shapes target p opCombo tr = Inr tr' \<Longrightarrow>
   at_most_target target tr'"
  unfolding try_shapes_def andThen_def
  by (auto split: sum.splits if_splits dest: try_rpn_keeps_single)

lemma merge_sub_keeps_single:
  "at_most_target target tr \<Longrightarrow> merge_sub target sub tr = Inr tr' \<Longrightarrow> at_most_target target tr'"
  unfolding merge_sub_def
  by (erule foldE_preserves [where P = "at_most_target target"])
     (auto dest: updateSolutions_keeps_single)

lemma unary_at_keeps_single:
  "at_most_target target tr \<Longrightarrow> unary_at recur operators target level p i tr = Inr tr' \<Longrightarrow>
   at_most_target target tr'"
  unfolding unary_at_def andThen_def
  by (auto split: sum.splits option.splits prod.splits dest: merge_sub_keeps_single)

lemma process_permutation_keeps_single:
  assumes "at_most_target target tr"
    and "process_permutation recur operators target level p tr = Inr tr'"
  shows "at_most_target target tr'"
proof -
  from assms(2) obtain tr1 where
    1: "foldE (try_shapes target p) (generateOpCombinations operators (length p - 1) []) tr = Inr tr1"
    and 2: "(if level_ge_2 level then
              foldE (unary_at recur operators target level p) [0..<length p] tr1
            else Inr tr1) = Inr tr'"
    by (auto simp: process_permutation_def andThen_def split: if_splits sum.splits)
  have "at_most_target target tr1"
    using assms(1) _ 1
    by (rule foldE_preserves [where P = "at_most_target target"]) (rule try_shapes_keeps_single)
  then show ?thesis
  proof (cases "level_ge_2 level")
    case True
    with 2 have 3: "foldE (unary_at recur operators target level p) [0..<length p] tr1 = Inr tr'"
      by simp
    show ?thesis
      using \<open>at_most_target target tr1\<close> _ 3
      by (rule foldE_preserves [where P = "at_most_target target"]) (rule unary_at_keeps_single)
  next
    case False
    with 2 \<open>at_most_target target tr1\<close> show ?thesis by simp
  qed
qed

lemma sigma_pair_keeps_single:
  "at_most_target target tr \<Longrightarrow> sigma_pair recur target p i j tr = Inr tr' \<Longrightarrow>
   at_most_target target tr'"
  unfolding sigma_pair_def andThen_def Let_def
  by (auto simp: at_most_target_cases split: sum.splits if_splits)

lemma sigma_inner_loop_keeps_single:
  "at_most_target target tr \<Longrightarrow>
   foldE (\<lambda>j. sigma_pair recur target p i j) js tr = Inr tr' \<Longrightarrow> at_most_target target tr'"
  by (erule foldE_preserves [where P = "at_most_target target"])
     (auto dest: sigma_pair_keeps_single)

lemma sigma_outer_loop_keeps_single:
  "at_most_target target tr \<Longrightarrow>
   foldE (\<lambda>i. foldE (\<lambda>j. sigma_pair recur target p i j) js) is tr = Inr tr' \<Longrightarrow>
   at_most_target target tr'"
  by (erule foldE_preserves [where P = "at_most_target target"])
     (auto dest: sigma_inner_loop_keeps_single)

lemma sigma_block_keeps_single:
  "at_most_target target tr \<Longrightarrow> sigma_block recur target perms tr = Inr tr' \<Longrightarrow>
   at_most_target target tr'"
  unfolding sigma_block_def
  by (erule foldE_preserves [where P = "at_most_target target"])
     (auto dest: sigma_outer_loop_keeps_single)

lemma body_at_most_one:
  assumes "findSolutions_body recur numbers target level = Inr r"
  shows "length (exactSolutions r) \<le> 1"
proof -
  from assms obtain tr1 tr2 where
    1: "foldE (process_permutation recur (operators_of level) target level)
          (numPermutations numbers) \<lparr>solutions = [], closest = None\<rparr> = Inr tr1"
    and 2: "(if level_is_3 level then sigma_block recur target (numPermutations numbers) tr1
             else Inr tr1) = Inr tr2"
    and r: "r = distill target tr2"
    by (auto simp: findSolutions_body_def Let_def andThen_def split: sum.splits)
  have "at_most_target target \<lparr>solutions = [], closest = None\<rparr>"
    by (simp add: at_most_target_def)
  then have "at_most_target target tr1"
    using _ 1
    by (rule foldE_preserves [where P = "at_most_target target"])
       (rule process_permutation_keeps_single)
  with 2 have "at_most_target target tr2"
    by (auto split: if_splits dest: sigma_block_keeps_single)
  then have "length (solutions tr2) \<le> 1"
    by (auto simp: at_most_target_cases)
  moreover have "length (exactSolutions r) \<le> length (solutions tr2)"
    unfolding r distill_def by (simp add: min.coboundedI1)
  ultimately show ?thesis by simp
qed

text \<open>
  C9. Whenever \<open>findSolutions\<close> returns, its \<open>exactSolutions\<close> has at most one record: the
  map is keyed by the value, and every entry is stored under the target.
\<close>

theorem at_most_one_exact_solution:
  "findSolutions depth numbers target level = Inr r \<Longrightarrow> length (exactSolutions r) \<le> 1"
  by (cases depth) (auto dest: body_at_most_one)

theorem at_most_one_exact_solution_witness:
  "findSolutions 1 [3, 5] 8 LvB =
     Inr \<lparr>exactSolutions =
            [\<lparr>sol_value = 8, sol_expression = Some ''3+5'', sol_rpn = Some [Num 3, Num 5, Op OpAdd],
              sol_type = ''normal'', sol_sigma = None, sol_score = 3\<rparr>],
          result_closest =
            Some \<lparr>cl_value = 8, cl_expression = ''3+5'', cl_distance = 0,
                  cl_rpn = [Num 3, Num 5, Op OpAdd], cl_type = ''normal'', cl_sigma = None,
                  cl_score = 3\<rparr>\<rparr>
   \<and> length [\<lparr>sol_value = 8, sol_expression = Some ''3+5'', sol_rpn = Some [Num 3, Num 5, Op OpAdd],
               sol_type = ''normal'', sol_sigma = None, sol_score = 3\<rparr>] \<le> 1"
proof -
  have run: "findSolutions 1 [3, 5] 8 LvB =
     Inr \<lparr>exactSolutions =
            [\<lparr>sol_value = 8, sol_expression = Some ''3+5'', sol_rpn = Some [Num 3, Num 5, Op OpAdd],
              sol_type = ''normal'', sol_sigma = None, sol_score = 3\<rparr>],
          result_closest =
            Some \<lparr>cl_value = 8, cl_expression = ''3+5'', cl_distance = 0,
                  cl_rpn = [Num 3, Num 5, Op OpAdd], cl_type = ''normal'', cl_sigma = None,
                  cl_score = 3\<rparr>\<rparr>"
    by code_simp
  from at_most_one_exact_solution [OF run] run show ?thesis by simp
qed

subsection \<open>The empty input\<close>

lemma candidate_zero:
  "evaluateRPN [Num 0] = Some (Fin 0)" "rpnToInfix [Num 0] = Some ''0''" "calculateScore [Num 0] = 1"
  by code_simp+

lemma search_of_zero:
  "findSolutions (Suc depth) [0] target LvB =
     Inr \<lparr>exactSolutions =
            (if target = 0 then
               [\<lparr>sol_value = 0, sol_expression = Some ''0'', sol_rpn = Some [Num 0],
                 sol_type = ''normal'', sol_sigma = None, sol_score = 1\<rparr>]
             else []),
          result_closest =
            Some \<lparr>cl_value = 0, cl_expression = ''0'', cl_distance = \<bar>target\<bar>, cl_rpn = [Num 0],
                  cl_type = ''normal'', cl_sigma = None, cl_score = 1\<rparr>\<rparr>"
  by (simp add: findSolutions_body_def numPermutations_zero operators_of_strings
      process_permutation_def try_shapes_def shape_all_numbers_then_operators_def try_rpn_def
      candidate_zero updateSolutions_def render_def is_closer_def map_has_def level_is_3_def
      distill_def)

text \<open>
  C10. At level \<open>"B"\<close> and for every target, the empty number list is searched as the
  single number 0: the permutations are \<open>[[0]]\<close>, the result is that of the input \<open>[0]\<close>,
  the closest record is the candidate \<open>[0]\<close> of value 0, and for the target 0 it is an
  exact solution with the expression \<open>0\<close>.
\<close>

theorem empty_input_searches_zero:
  "numPermutations [] = [[0]] \<and>
   findSolutions (Suc depth) [] target LvB = findSolutions (Suc depth) [0] target LvB \<and>
   (\<exists>r. findSolutions (Suc depth) [] target LvB = Inr r \<and>
        result_closest r =
          Some \<lparr>cl_value = 0, cl_expression = ''0'', cl_distance = \<bar>target\<bar>, cl_rpn = [Num 0],
                cl_type = ''normal'', cl_sigma = None, cl_score = 1\<rparr>) \<and>
   findSolutions (Suc depth) [] 0 LvB =
     Inr \<lparr>exactSolutions =
            [\<lparr>sol_value = 0, sol_expression = Some ''0'', sol_rpn = Some [Num 0],
              sol_type = ''normal'', sol_sigma = None, sol_score = 1\<rparr>],
          result_closest =
            Some \<lparr>cl_value = 0, cl_expression = ''0'', cl_distance = 0, cl_rpn = [Num 0],
                  cl_type = ''normal'', cl_sigma = None, cl_score = 1\<rparr>\<rparr>"
proof -
  have same: "findSolutions (Suc depth) [] t LvB = findSolutions (Suc depth) [0] t LvB" for t
    by (simp add: findSolutions_body_def numPermutations_empty numPermutations_zero)
  show ?thesis
    by (simp add: numPermutations_empty same search_of_zero del: findSolutions.simps)
qed

end
